theory Spec2Isabelle
  imports Main
begin

section \<open>Python values, objects and the store\<close>

text \<open>
  The helpers of \<^verbatim>\<open>dbutils/helpers.py\<close> read and write attributes of model
  instances. An attribute holds \<^verbatim>\<open>None\<close>, a boolean, an integer, a string or a
  reference to another object. Objects live in a store indexed by their identity, so that
  a list naming the same object twice, or two groups sharing an object, see each
  other's writes.
\<close>

datatype pyval = PNone | PBool bool | PInt int | PStr string | PRef nat

type_synonym pyobject = "string \<rightharpoonup> pyval"

type_synonym store = "nat \<Rightarrow> pyobject"

datatype pyerror =
    AttributeError
  | ValueError string string
  | SiteProfileNotAvailable
  | ImportError
  | ImproperlyConfigured

text \<open>
  Python compares and hashes \<^verbatim>\<open>True\<close> as \<^verbatim>\<open>1\<close> and \<^verbatim>\<open>False\<close> as
  \<^verbatim>\<open>0\<close>; sets and dictionaries identify keys up to that. \<open>py_key\<close> is the
  representative of a value among the values equal to it.
\<close>

fun py_key :: "pyval \<Rightarrow> pyval" where
  "py_key (PBool b) = PInt (if b then 1 else 0)"
| "py_key v = v"

text \<open>\<^verbatim>\<open>getattr(o, name)\<close> raises when the attribute is missing;
  \<^verbatim>\<open>getattr(o, name, default)\<close> returns the default instead.\<close>

definition getattr :: "pyobject \<Rightarrow> string \<Rightarrow> pyerror + pyval" where
  "getattr ob a = (case ob a of None \<Rightarrow> Inl AttributeError | Some v \<Rightarrow> Inr v)"

definition getattr_default :: "pyobject \<Rightarrow> string \<Rightarrow> pyval \<Rightarrow> pyval" where
  "getattr_default ob a d = (case ob a of None \<Rightarrow> d | Some v \<Rightarrow> v)"

text \<open>A dictionary is a map on key representatives; \<^verbatim>\<open>d.get(k)\<close> is
  \<^verbatim>\<open>None\<close> for a missing key, \<^verbatim>\<open>d.setdefault(k, v)\<close> stores only when the key
  is new.\<close>

type_synonym pydict = "pyval \<rightharpoonup> pyval"

definition dict_get :: "pydict \<Rightarrow> pyval \<Rightarrow> pyval" where
  "dict_get d k = (case d (py_key k) of None \<Rightarrow> PNone | Some v \<Rightarrow> v)"

definition dict_setdefault :: "pydict \<Rightarrow> pyval \<Rightarrow> pyval \<Rightarrow> pydict" where
  "dict_setdefault d k v = (case d (py_key k) of None \<Rightarrow> d(py_key k \<mapsto> v) | Some _ \<Rightarrow> d)"

section \<open>The data source\<close>

text \<open>
  The object-relational layer is outside the repository. A query is what the helpers
  hand to it: the model, the lookup of the \<^verbatim>\<open>__in\<close> filter, the values, the
  database alias of \<^verbatim>\<open>using\<close> (absent in \<^verbatim>\<open>attach_profile\<close>) and the
  relations of \<^verbatim>\<open>select_related\<close>. The data source is a parameter \<open>db\<close> giving
  the objects a query returns; the state records every query that was run.
\<close>

record query =
  q_model :: string
  q_lookup :: string
  q_values :: "pyval list"
  q_using :: "string option"
  q_related :: "string list"

record state =
  heap :: store
  queries :: "query list"

definition run_query :: "(query \<Rightarrow> nat list) \<Rightarrow> query \<Rightarrow> state \<Rightarrow> nat list \<times> state" where
  "run_query db q s = (db q, s\<lparr>queries := queries s @ [q]\<rparr>)"

definition setattr :: "nat \<Rightarrow> string \<Rightarrow> pyval \<Rightarrow> state \<Rightarrow> state" where
  "setattr r a v s = s\<lparr>heap := (heap s)(r := (heap s r)(a \<mapsto> v))\<rparr>"

text \<open>Modelled from the spec: the Data Access Collaborator's
  \<^verbatim>\<open>fetchByKeySet(model, lookupField, keySet, nestedRelations)\<close>, "fetch all
  related records whose lookup key is in this value set", over a table of stored
  objects. \<open>keyattr\<close> is the attribute of a row that the lookup compares.\<close>

definition fetchByKeySet :: "store \<Rightarrow> nat list \<Rightarrow> string \<Rightarrow> query \<Rightarrow> nat list" where
  "fetchByKeySet h tbl keyattr q =
     filter (\<lambda>r. case h r keyattr of None \<Rightarrow> False
                 | Some v \<Rightarrow> py_key v \<in> py_key ` set (q_values q)) tbl"

section \<open>queryset_to_dict and distinct\<close>

text \<open>
  \<^verbatim>\<open>queryset_to_dict(qs, key, singular)\<close> returns a plain dictionary of records
  when \<open>singular\<close> is true and a dictionary of lists otherwise; the two branches are
  \<open>queryset_to_dict\<close> and \<open>queryset_to_dict_lists\<close>. Each is the loop of the
  source over an accumulated result.
\<close>

fun singular_loop :: "store \<Rightarrow> string \<Rightarrow> nat list \<Rightarrow> pydict \<Rightarrow> pyerror + pydict" where
  "singular_loop h key [] result = Inr result"
| "singular_loop h key (u # qs) result =
     (case getattr (h u) key of
        Inl e \<Rightarrow> Inl e
      | Inr k \<Rightarrow> singular_loop h key qs (dict_setdefault result k (PRef u)))"

definition queryset_to_dict :: "store \<Rightarrow> nat list \<Rightarrow> string \<Rightarrow> pyerror + pydict" where
  "queryset_to_dict h qs key = singular_loop h key qs Map.empty"

fun lists_loop ::
  "store \<Rightarrow> string \<Rightarrow> nat list \<Rightarrow> (pyval \<rightharpoonup> pyval list) \<Rightarrow> pyerror + (pyval \<rightharpoonup> pyval list)" where
  "lists_loop h key [] result = Inr result"
| "lists_loop h key (u # qs) result =
     (case getattr (h u) key of
        Inl e \<Rightarrow> Inl e
      | Inr k \<Rightarrow>
          lists_loop h key qs
            (result(py_key k \<mapsto> (case result (py_key k) of None \<Rightarrow> [] | Some l \<Rightarrow> l) @ [PRef u])))"

definition queryset_to_dict_lists ::
  "store \<Rightarrow> nat list \<Rightarrow> string \<Rightarrow> pyerror + (pyval \<rightharpoonup> pyval list)" where
  "queryset_to_dict_lists h qs key = lists_loop h key qs Map.empty"

text \<open>\<^verbatim>\<open>distinct(l)\<close> is \<^verbatim>\<open>list(set(l))\<close>: one value per class of equal
  values, the first one inserted. Python leaves the order of the list open; the model
  lists the values in the order of their first occurrence.\<close>

fun distinct_from :: "pyval list \<Rightarrow> pyval list \<Rightarrow> pyval list" where
  "distinct_from seen [] = []"
| "distinct_from seen (x # xs) =
     (if py_key x \<in> set seen then distinct_from seen xs
      else x # distinct_from (py_key x # seen) xs)"

definition distinct_values :: "pyval list \<Rightarrow> pyval list" where
  "distinct_values l = distinct_from [] l"

section \<open>attach_foreignkey\<close>

record field =
  f_name :: string
  f_column :: string
  f_rel_to :: string
  f_model :: string

text \<open>
  The descriptor passed as \<open>field\<close>: the accessor of a foreign key, which carries
  its \<^verbatim>\<open>field\<close>, or a \<^verbatim>\<open>SingleRelatedObjectDescriptor\<close> (the reverse side of a
  one-to-one relation), which carries \<^verbatim>\<open>cache_name\<close> and \<^verbatim>\<open>related.field\<close>.
\<close>

datatype descriptor =
    ForeignKeyDescriptor field
  | SingleRelatedObjectDescriptor string field

definition cache_attr :: "field \<Rightarrow> string" where
  "cache_attr f = ''_'' @ f_name f @ ''_cache''"

record resolved =
  r_accessor :: string
  r_model :: string
  r_lookup :: string
  r_column :: string
  r_key :: string

fun resolve :: "descriptor \<Rightarrow> resolved" where
  "resolve (ForeignKeyDescriptor f) =
     \<lparr>r_accessor = cache_attr f, r_model = f_rel_to f, r_lookup = ''pk'',
      r_column = f_column f, r_key = ''pk''\<rparr>"
| "resolve (SingleRelatedObjectDescriptor cache_name f) =
     \<lparr>r_accessor = cache_name, r_model = f_model f, r_lookup = f_name f,
      r_column = ''pk'', r_key = f_column f\<rparr>"

text \<open>The generator of line 52:
  \<^verbatim>\<open>getattr(o, column) for o in objects if (related or getattr(o, accessor, False) is False)\<close>.\<close>

definition needs_fetch :: "store \<Rightarrow> string \<Rightarrow> string list \<Rightarrow> nat \<Rightarrow> bool" where
  "needs_fetch h acc related ob =
     (related \<noteq> [] \<or> getattr_default (h ob) acc (PBool False) = PBool False)"

fun scan :: "store \<Rightarrow> string \<Rightarrow> string \<Rightarrow> string list \<Rightarrow> nat list \<Rightarrow> pyerror + pyval list" where
  "scan h col acc related [] = Inr []"
| "scan h col acc related (ob # objects) =
     (if needs_fetch h acc related ob then
        (case getattr (h ob) col of
           Inl e \<Rightarrow> Inl e
         | Inr v \<Rightarrow>
            (case scan h col acc related objects of
               Inl e \<Rightarrow> Inl e
             | Inr vs \<Rightarrow> Inr (v # vs)))
      else scan h col acc related objects)"

text \<open>The loop of lines 61-62; an exception leaves the writes made so far.\<close>

fun attach_loop ::
  "pydict \<Rightarrow> string \<Rightarrow> string \<Rightarrow> nat list \<Rightarrow> state \<Rightarrow> (pyerror + unit) \<times> state" where
  "attach_loop queryset acc col [] s = (Inr (), s)"
| "attach_loop queryset acc col (ob # objects) s =
     (case getattr (heap s ob) col of
        Inl e \<Rightarrow> (Inl e, s)
      | Inr v \<Rightarrow> attach_loop queryset acc col objects (setattr ob acc (dict_get queryset v) s))"

definition fk_query :: "resolved \<Rightarrow> pyval list \<Rightarrow> string \<Rightarrow> string list \<Rightarrow> query" where
  "fk_query r vals database related =
     \<lparr>q_model = r_model r, q_lookup = r_lookup r, q_values = vals,
      q_using = Some database, q_related = related\<rparr>"

definition attach_foreignkey ::
  "(query \<Rightarrow> nat list) \<Rightarrow> nat list \<Rightarrow> descriptor \<Rightarrow> string list \<Rightarrow> string \<Rightarrow> state
     \<Rightarrow> (pyerror + unit) \<times> state" where
  "attach_foreignkey db objects fld related database s =
     (let r = resolve fld in
      case scan (heap s) (r_column r) (r_accessor r) related objects of
        Inl e \<Rightarrow> (Inl e, s)
      | Inr vs \<Rightarrow>
          (let values = distinct_values vs in
           if values = [] then (Inr (), s)
           else
             (let (qs, s1) = run_query db (fk_query r values database related) s
              in case queryset_to_dict (heap s1) qs (r_key r) of
                   Inl e \<Rightarrow> (Inl e, s1)
                 | Inr queryset \<Rightarrow> attach_loop queryset (r_accessor r) (r_column r) objects s1)))"

section \<open>attach_foreignkeys\<close>

text \<open>
  \<^verbatim>\<open>attach_foreignkeys(*object_sets, **kwargs)\<close> works with foreign keys only: a
  group is a list of objects and the field of its descriptor (\<^verbatim>\<open>field.field\<close>).
  \<open>scan_groups\<close> is the loop of lines 81-88 over the variables \<open>model\<close> and
  \<open>values\<close>; it writes nothing and runs no query.
\<close>

definition set_update :: "pyval list \<Rightarrow> pyval list \<Rightarrow> pyval list" where
  "set_update vals new = distinct_values (vals @ new)"

definition check_model :: "string option \<Rightarrow> field \<Rightarrow> pyerror + string" where
  "check_model model fld =
     (case model of
        None \<Rightarrow> Inr (f_rel_to fld)
      | Some m \<Rightarrow> if m \<noteq> f_rel_to fld then Inl (ValueError m (f_rel_to fld)) else Inr m)"

fun scan_groups ::
  "store \<Rightarrow> string list \<Rightarrow> (nat list \<times> field) list \<Rightarrow> string option \<Rightarrow> pyval list
     \<Rightarrow> pyerror + (string option \<times> pyval list)" where
  "scan_groups h related [] model vals = Inr (model, vals)"
| "scan_groups h related ((objects, fld) # object_sets) model vals =
     (case check_model model fld of
        Inl e \<Rightarrow> Inl e
      | Inr m \<Rightarrow>
         (case scan h (f_column fld) (cache_attr fld) related objects of
            Inl e \<Rightarrow> Inl e
          | Inr vs \<Rightarrow>
              scan_groups h related object_sets (Some m) (set_update vals (distinct_values vs))))"

fun attach_groups ::
  "pydict \<Rightarrow> (nat list \<times> field) list \<Rightarrow> state \<Rightarrow> (pyerror + unit) \<times> state" where
  "attach_groups queryset [] s = (Inr (), s)"
| "attach_groups queryset ((objects, fld) # object_sets) s =
     (case attach_loop queryset (cache_attr fld) (f_column fld) objects s of
        (Inl e, s1) \<Rightarrow> (Inl e, s1)
      | (Inr _, s1) \<Rightarrow> attach_groups queryset object_sets s1)"

definition pk_query :: "string \<Rightarrow> pyval list \<Rightarrow> string \<Rightarrow> string list \<Rightarrow> query" where
  "pk_query m vals database related =
     \<lparr>q_model = m, q_lookup = ''pk'', q_values = vals, q_using = Some database,
      q_related = related\<rparr>"

definition attach_foreignkeys ::
  "(query \<Rightarrow> nat list) \<Rightarrow> (nat list \<times> field) list \<Rightarrow> string list \<Rightarrow> string \<Rightarrow> state
     \<Rightarrow> (pyerror + unit) \<times> state" where
  "attach_foreignkeys db object_sets related database s =
     (case scan_groups (heap s) related object_sets None [] of
        Inl e \<Rightarrow> (Inl e, s)
      | Inr (model, vals) \<Rightarrow>
          if vals = [] then (Inr (), s)
          else
            (case model of
               None \<Rightarrow> (Inl AttributeError, s)
             | Some m \<Rightarrow>
                (let (qs, s1) = run_query db (pk_query m vals database related) s
                 in case queryset_to_dict (heap s1) qs ''pk'' of
                      Inl e \<Rightarrow> (Inl e, s1)
                    | Inr queryset \<Rightarrow> attach_groups queryset object_sets s1)))"

section \<open>attach_profile\<close>

text \<open>
  The settings and the model registry are parameters: \<open>auth_profile_module\<close> is
  the setting \<^verbatim>\<open>AUTH_PROFILE_MODULE\<close> when it is set, \<open>get_model\<close> is
  \<^verbatim>\<open>models.get_model\<close>, which returns a model, returns \<^verbatim>\<open>None\<close> or raises.
\<close>

fun split_on :: "char \<Rightarrow> string \<Rightarrow> string list" where
  "split_on c [] = [[]]"
| "split_on c (x # xs) =
     (if x = c then [] # split_on c xs
      else (case split_on c xs of [] \<Rightarrow> [[x]] | w # ws \<Rightarrow> (x # w) # ws))"

definition profile_model ::
  "string option \<Rightarrow> (string \<Rightarrow> string \<Rightarrow> pyerror + string option) \<Rightarrow> pyerror + string" where
  "profile_model auth_profile_module get_model =
     (case auth_profile_module of
        None \<Rightarrow> Inl SiteProfileNotAvailable
      | Some m \<Rightarrow>
          if m = [] then Inl SiteProfileNotAvailable
          else
            (case split_on (CHR ''.'') m of
               [app_label, model_name] \<Rightarrow>
                 (case get_model app_label model_name of
                    Inl ImportError \<Rightarrow> Inl SiteProfileNotAvailable
                  | Inl ImproperlyConfigured \<Rightarrow> Inl SiteProfileNotAvailable
                  | Inl e \<Rightarrow> Inl e
                  | Inr None \<Rightarrow> Inl SiteProfileNotAvailable
                  | Inr (Some model) \<Rightarrow> Inr model)
             | _ \<Rightarrow> Inl SiteProfileNotAvailable))"

text \<open>\<^verbatim>\<open>[u.pk for u in users]\<close>.\<close>

fun pks :: "store \<Rightarrow> nat list \<Rightarrow> pyerror + pyval list" where
  "pks h [] = Inr []"
| "pks h (u # users) =
     (case getattr (h u) ''pk'' of
        Inl e \<Rightarrow> Inl e
      | Inr v \<Rightarrow> (case pks h users of Inl e \<Rightarrow> Inl e | Inr vs \<Rightarrow> Inr (v # vs)))"

text \<open>The loop of lines 133-135. \<^verbatim>\<open>u._profile_cache.user = u\<close> writes to the
  object the slot refers to; a slot that holds \<^verbatim>\<open>None\<close> has no attribute to
  write.\<close>

fun profile_loop :: "pydict \<Rightarrow> nat list \<Rightarrow> state \<Rightarrow> (pyerror + unit) \<times> state" where
  "profile_loop profiles [] s = (Inr (), s)"
| "profile_loop profiles (u # users) s =
     (case getattr (heap s u) ''pk'' of
        Inl e \<Rightarrow> (Inl e, s)
      | Inr v \<Rightarrow>
         (let s1 = setattr u ''_profile_cache'' (dict_get profiles v) s in
          case getattr (heap s1 u) ''_profile_cache'' of
            Inr (PRef p) \<Rightarrow> profile_loop profiles users (setattr p ''user'' (PRef u) s1)
          | _ \<Rightarrow> (Inl AttributeError, s1)))"

definition profile_query :: "string \<Rightarrow> pyval list \<Rightarrow> query" where
  "profile_query model vals =
     \<lparr>q_model = model, q_lookup = ''pk'', q_values = vals, q_using = None, q_related = []\<rparr>"

definition attach_profile ::
  "(query \<Rightarrow> nat list) \<Rightarrow> string option \<Rightarrow> (string \<Rightarrow> string \<Rightarrow> pyerror + string option)
     \<Rightarrow> nat list \<Rightarrow> state \<Rightarrow> (pyerror + nat list) \<times> state" where
  "attach_profile db auth_profile_module get_model users s =
     (case profile_model auth_profile_module get_model of
        Inl e \<Rightarrow> (Inl e, s)
      | Inr model \<Rightarrow>
         (case pks (heap s) users of
            Inl e \<Rightarrow> (Inl e, s)
          | Inr vs \<Rightarrow>
             (let (qs, s1) = run_query db (profile_query model (distinct_values vs)) s
              in case queryset_to_dict (heap s1) qs ''pk'' of
                   Inl e \<Rightarrow> (Inl e, s1)
                 | Inr profiles \<Rightarrow>
                    (case profile_loop profiles users s1 of
                       (Inl e, s2) \<Rightarrow> (Inl e, s2)
                     | (Inr _, s2) \<Rightarrow> (Inr users, s2)))))"

section \<open>Functions used in the statements\<close>

text \<open>
  These are not part of the source; the theorems below use them to say, without
  recursion over an accumulator, what the loops of the source compute.
  \<open>key_of\<close> is the dictionary key of a stored object, \<open>lookup_table\<close> maps a
  key to the first row that carries it, \<open>scanned\<close> lists the column values of the
  objects that line 52 does not skip.
\<close>

definition key_of :: "store \<Rightarrow> string \<Rightarrow> nat \<Rightarrow> pyval option" where
  "key_of h a u = map_option py_key (h u a)"

definition lookup_table :: "store \<Rightarrow> string \<Rightarrow> nat list \<Rightarrow> pydict" where
  "lookup_table h a rows = (\<lambda>k. map_option PRef (find (\<lambda>u. key_of h a u = Some k) rows))"

definition has_attr :: "store \<Rightarrow> string \<Rightarrow> nat list \<Rightarrow> bool" where
  "has_attr h a obs = list_all (\<lambda>ob. h ob a \<noteq> None) obs"

definition scanned :: "store \<Rightarrow> string \<Rightarrow> string \<Rightarrow> string list \<Rightarrow> nat list \<Rightarrow> pyval list" where
  "scanned h col acc related objects =
     map (\<lambda>ob. the (h ob col)) (filter (needs_fetch h acc related) objects)"

text \<open>
  For \<^verbatim>\<open>attach_foreignkeys\<close>: \<open>all_scanned\<close> lists the scanned values of all
  groups, group after group. \<open>groups_wf\<close> says that the groups fit the store: every
  owner has the column of its group, no cache attribute is also a column, and two groups
  that write the same slot of a shared owner read the same column.
\<close>

definition all_scanned :: "store \<Rightarrow> string list \<Rightarrow> (nat list \<times> field) list \<Rightarrow> pyval list" where
  "all_scanned h related object_sets =
     concat (map (\<lambda>(objects, fld). scanned h (f_column fld) (cache_attr fld) related objects)
               object_sets)"

definition groups_wf :: "store \<Rightarrow> (nat list \<times> field) list \<Rightarrow> bool" where
  "groups_wf h object_sets =
     (\<forall>(objects, fld) \<in> set object_sets.
        has_attr h (f_column fld) objects \<and>
        (\<forall>(objects', fld') \<in> set object_sets.
           cache_attr fld \<noteq> f_column fld' \<and>
           (\<forall>ob \<in> set objects \<inter> set objects'.
              cache_attr fld = cache_attr fld' \<longrightarrow> f_column fld = f_column fld')))"

text \<open>
  For \<^verbatim>\<open>attach_profile\<close>: \<open>profile_of\<close> is the first row whose primary key is
  the primary key of a user, if there is one.
\<close>

definition profile_of :: "store \<Rightarrow> nat list \<Rightarrow> nat \<Rightarrow> nat option" where
  "profile_of h rows u = find (\<lambda>r. key_of h ''pk'' r = key_of h ''pk'' u) rows"

section \<open>Example objects\<close>

text \<open>
  A small store for the concrete instances below: posts 0, 1, 2, 4 and 6 with a foreign
  key \<^verbatim>\<open>thread\<close>, a bookmark 3 with a foreign key \<^verbatim>\<open>topic\<close> to the same
  model, a post 5 with a foreign key \<^verbatim>\<open>author\<close> to another model, the thread
  rows 10 and 11 of the table, a second object 12 for the row with key 1, an object 13
  for a thread that is no longer in the table, the users 20 and 21 and the only profile
  row 30.
\<close>

definition thread_fld :: field where
  "thread_fld = \<lparr>f_name = ''thread'', f_column = ''thread_id'', f_rel_to = ''Thread'',
                  f_model = ''Post''\<rparr>"

definition topic_fld :: field where
  "topic_fld = \<lparr>f_name = ''topic'', f_column = ''topic_id'', f_rel_to = ''Thread'',
                 f_model = ''Bookmark''\<rparr>"

definition author_fld :: field where
  "author_fld = \<lparr>f_name = ''author'', f_column = ''author_id'', f_rel_to = ''User'',
                  f_model = ''Post''\<rparr>"

definition ex_heap :: store where
  "ex_heap = (\<lambda>_. Map.empty)
     (0 := [''thread_id'' \<mapsto> PInt 1, ''_thread_cache'' \<mapsto> PRef 10],
      1 := [''thread_id'' \<mapsto> PInt 2],
      2 := [''thread_id'' \<mapsto> PInt 3],
      3 := [''topic_id'' \<mapsto> PInt 2],
      4 := [''thread_id'' \<mapsto> PInt 3, ''_thread_cache'' \<mapsto> PRef 13],
      5 := [''author_id'' \<mapsto> PInt 1],
      6 := [''thread_id'' \<mapsto> PInt 2, ''_thread_cache'' \<mapsto> PNone],
      10 := [''pk'' \<mapsto> PInt 1],
      11 := [''pk'' \<mapsto> PInt 2],
      12 := [''pk'' \<mapsto> PInt 1],
      13 := [''pk'' \<mapsto> PInt 3],
      20 := [''pk'' \<mapsto> PInt 1],
      21 := [''pk'' \<mapsto> PInt 2],
      30 := [''pk'' \<mapsto> PInt 1])"

definition ex_state :: state where
  "ex_state = \<lparr>heap = ex_heap, queries = []\<rparr>"

definition thread_db :: "query \<Rightarrow> nat list" where
  "thread_db = fetchByKeySet ex_heap [10, 11] ''pk''"

definition profile_db :: "query \<Rightarrow> nat list" where
  "profile_db = fetchByKeySet ex_heap [30] ''pk''"

definition ex_get_model :: "string \<Rightarrow> string \<Rightarrow> pyerror + string option" where
  "ex_get_model app_label model_name = Inr (Some model_name)"

section \<open>Lemmas about the loops\<close>

lemma py_key_idem [simp]: "py_key (py_key v) = py_key v"
  by (cases v) auto

lemma singular_loop_find:
  "has_attr h a qs \<Longrightarrow>
   singular_loop h a qs d =
     Inr (\<lambda>k. case d k of Some v \<Rightarrow> Some v
               | None \<Rightarrow> map_option PRef (find (\<lambda>u. key_of h a u = Some k) qs))"
proof (induction qs arbitrary: d)
  case Nil
  then show ?case by (auto simp: fun_eq_iff split: option.splits)
next
  case (Cons u qs)
  then obtain v where v: "h u a = Some v" by (auto simp: has_attr_def)
  from Cons have "has_attr h a qs" by (simp add: has_attr_def)
  from Cons.IH[OF this] v show ?case
    by (auto simp: getattr_def dict_setdefault_def key_of_def fun_eq_iff split: option.splits)
qed

lemma queryset_to_dict_lookup_table:
  "has_attr h a qs \<Longrightarrow> queryset_to_dict h qs a = Inr (lookup_table h a qs)"
  by (simp add: queryset_to_dict_def singular_loop_find lookup_table_def)

lemma dict_get_lookup_table:
  "dict_get (lookup_table h a rows) v =
     (case find (\<lambda>u. key_of h a u = Some (py_key v)) rows of None \<Rightarrow> PNone | Some u \<Rightarrow> PRef u)"
  by (simp add: dict_get_def lookup_table_def split: option.splits)

lemma distinct_from_keys:
  "py_key ` set (distinct_from seen l) = py_key ` set l - set seen"
  by (induction l arbitrary: seen) auto

lemma distinct_values_keys: "py_key ` set (distinct_values l) = py_key ` set l"
  by (simp add: distinct_values_def distinct_from_keys)

lemma distinct_values_Nil_iff: "distinct_values l = [] \<longleftrightarrow> l = []"
  by (cases l) (simp_all add: distinct_values_def)

lemma scan_scanned:
  "has_attr h col objects \<Longrightarrow> scan h col acc related objects = Inr (scanned h col acc related objects)"
  unfolding has_attr_def scanned_def
  by (induction objects) (auto simp: getattr_def)

lemma scanned_Nil_iff:
  "scanned h col acc related objects = [] \<longleftrightarrow> (\<forall>ob \<in> set objects. \<not> needs_fetch h acc related ob)"
  by (auto simp: scanned_def filter_empty_conv)

lemma attach_loop_heap:
  "acc \<noteq> col \<Longrightarrow> has_attr (heap s) col objects \<Longrightarrow>
   attach_loop d acc col objects s =
     (Inr (), s\<lparr>heap := (\<lambda>ob. if ob \<in> set objects
                              then (heap s ob)(acc \<mapsto> dict_get d (the (heap s ob col)))
                              else heap s ob)\<rparr>)"
proof (induction objects arbitrary: s)
  case Nil
  then show ?case by simp
next
  case (Cons ob objects)
  then obtain v where v: "heap s ob col = Some v" by (auto simp: has_attr_def)
  let ?s1 = "setattr ob acc (dict_get d v) s"
  have wf1: "has_attr (heap ?s1) col objects"
    using Cons.prems by (auto simp: setattr_def list_all_iff has_attr_def)
  have col1: "\<And>x. heap ?s1 x col = heap s x col"
    using Cons.prems(1) by (simp add: setattr_def)
  show ?case
    using Cons.IH[OF Cons.prems(1) wf1] v Cons.prems(1)
    by (auto simp: getattr_def col1 setattr_def fun_eq_iff intro!: state.equality)
qed

lemma attach_foreignkey_fetch:
  fixes fld related database db s objects
  defines "r \<equiv> resolve fld"
  defines "q \<equiv> fk_query r (distinct_values (scanned (heap s) (r_column r) (r_accessor r) related objects))
                  database related"
  assumes ne: "r_accessor r \<noteq> r_column r"
    and cols: "has_attr (heap s) (r_column r) objects"
    and some: "\<exists>ob \<in> set objects. needs_fetch (heap s) (r_accessor r) related ob"
    and rows: "has_attr (heap s) (r_key r) (db q)"
  shows "attach_foreignkey db objects fld related database s =
     (Inr (),
      s\<lparr>heap := (\<lambda>ob. if ob \<in> set objects
                    then (heap s ob)(r_accessor r \<mapsto>
                           dict_get (lookup_table (heap s) (r_key r) (db q)) (the (heap s ob (r_column r))))
                    else heap s ob),
       queries := queries s @ [q]\<rparr>)"
proof -
  let ?vs = "scanned (heap s) (r_column r) (r_accessor r) related objects"
  have vs: "distinct_values ?vs \<noteq> []"
    using some by (simp add: distinct_values_Nil_iff scanned_Nil_iff)
  let ?s1 = "s\<lparr>queries := queries s @ [q]\<rparr>"
  have cols1: "has_attr (heap ?s1) (r_column r) objects"
    using cols by simp
  have rows1: "has_attr (heap ?s1) (r_key r) (db q)"
    using rows by simp
  have "attach_foreignkey db objects fld related database s =
        attach_loop (lookup_table (heap s) (r_key r) (db q)) (r_accessor r) (r_column r) objects ?s1"
    unfolding attach_foreignkey_def r_def[symmetric]
    using vs rows
    by (simp add: scan_scanned[OF cols] Let_def run_query_def q_def[symmetric]
        queryset_to_dict_lookup_table)
  also have "\<dots> = (Inr (), ?s1\<lparr>heap := (\<lambda>ob. if ob \<in> set objects
                    then (heap ?s1 ob)(r_accessor r \<mapsto>
                           dict_get (lookup_table (heap s) (r_key r) (db q)) (the (heap ?s1 ob (r_column r))))
                    else heap ?s1 ob)\<rparr>)"
    by (rule attach_loop_heap[OF ne cols1])
  finally show ?thesis by (simp cong: if_cong)
qed


lemma attach_loop_queries: "queries (snd (attach_loop d acc col objects s)) = queries s"
  by (induction objects arbitrary: s) (auto simp: setattr_def split: sum.splits)

section \<open>Claims about queryset_to_dict and attach_foreignkey\<close>

lemmas ex_defs = ex_heap_def ex_state_def thread_db_def profile_db_def thread_fld_def topic_fld_def
  author_fld_def ex_get_model_def fetchByKeySet_def cache_attr_def needs_fetch_def getattr_def
  getattr_default_def distinct_values_def run_query_def queryset_to_dict_def dict_setdefault_def
  dict_get_def setattr_def key_of_def has_attr_def fk_query_def scanned_def lookup_table_def
  pk_query_def set_update_def check_model_def all_scanned_def profile_query_def profile_of_def

text \<open>
  Claim C1 says that, with no nested relations, an owner whose cache slot was populated
  before the call keeps its cached value when another owner's key triggers the fetch.
  The code does not do that. Post 0 has thread 1 cached and thread 1 is in the table;
  post 1 has nothing cached. The scan skips post 0, the query asks for key 2 only, and
  the loop of lines 61-62 then writes \<^verbatim>\<open>queryset.get(1)\<close>, which is
  \<^verbatim>\<open>None\<close>, into the slot of post 0.
\<close>

theorem attach_foreignkey_overwrites_cached:
  "heap ex_state 0 ''_thread_cache'' = Some (PRef 10) \<and>
   key_of ex_heap ''pk'' 10 = key_of ex_heap ''thread_id'' 0 \<and>
   fst (attach_foreignkey thread_db [0, 1] (ForeignKeyDescriptor thread_fld) [] ''default'' ex_state)
     = Inr () \<and>
   heap (snd (attach_foreignkey thread_db [0, 1] (ForeignKeyDescriptor thread_fld) [] ''default''
               ex_state)) 0 ''_thread_cache'' = Some PNone \<and>
   map q_values (queries (snd (attach_foreignkey thread_db [0, 1] (ForeignKeyDescriptor thread_fld) []
               ''default'' ex_state))) = [[PInt 2]]"
  by (simp add: attach_foreignkey_def ex_defs)

text \<open>
  Claim C5: with \<open>singular\<close> true, \<open>queryset_to_dict\<close> maps each key to the
  first record of the input that carries it, whatever follows, and the empty input gives
  the empty dictionary. The records must have the key attribute, as \<^verbatim>\<open>getattr\<close>
  raises otherwise.
\<close>

theorem queryset_to_dict_first_record:
  "queryset_to_dict h [] a = Inr Map.empty \<and>
   (has_attr h a qs \<longrightarrow>
      queryset_to_dict h qs a =
        Inr (\<lambda>k. map_option PRef (find (\<lambda>u. key_of h a u = Some k) qs)))"
  using queryset_to_dict_lookup_table[of h a qs]
  by (simp add: queryset_to_dict_def lookup_table_def)

text \<open>
  An instance of C5: three rows, the first and the last with key 1.
\<close>

theorem queryset_to_dict_first_record_witness:
  "queryset_to_dict ex_heap [10, 11, 12] ''pk'' =
     Inr (\<lambda>k. map_option PRef (find (\<lambda>u. key_of ex_heap ''pk'' u = Some k) [10, 11, 12])) \<and>
   find (\<lambda>u. key_of ex_heap ''pk'' u = Some (PInt 1)) [10, 11, 12] = Some 10"
  using queryset_to_dict_first_record[of ex_heap "''pk''" "[10, 11, 12]"]
  by (simp add: has_attr_def ex_heap_def key_of_def)

text \<open>
  Claim C6 says that a key carried by several records ends up with the last one seen.
  On the rows 10, 11, 12, where 10 and 12 both carry key 1, the dictionary holds row 10
  for key 1 and not row 12.
\<close>

theorem queryset_to_dict_last_record_counterexample:
  "\<exists>d. queryset_to_dict ex_heap [10, 11, 12] ''pk'' = Inr d \<and>
       key_of ex_heap ''pk'' 10 = Some (PInt 1) \<and> key_of ex_heap ''pk'' 12 = Some (PInt 1) \<and>
       dict_get d (PInt 1) = PRef 10 \<and> dict_get d (PInt 1) \<noteq> PRef 12"
  by (simp add: ex_defs)

text \<open>
  Claim C6 as amended: when several records carry the same key, the dictionary holds the
  first of them in encounter order; \<^verbatim>\<open>setdefault\<close> never replaces an entry, so
  the later record at index \<open>j\<close> does not displace the one at index \<open>i\<close>.
\<close>

theorem queryset_to_dict_duplicate_key:
  assumes "has_attr h a qs" and "i < j" and "j < length qs"
    and "key_of h a (qs ! i) = Some k" and "key_of h a (qs ! j) = Some k"
    and "\<forall>m < i. key_of h a (qs ! m) \<noteq> Some k"
  shows "\<exists>d. queryset_to_dict h qs a = Inr d \<and> d k = Some (PRef (qs ! i))"
proof -
  have "find (\<lambda>u. key_of h a u = Some k) qs = Some (qs ! i)"
    unfolding find_Some_iff using assms by (intro exI[of _ i]) auto
  then show ?thesis
    using queryset_to_dict_lookup_table[OF assms(1)] by (simp add: lookup_table_def)
qed

text \<open>
  An instance of the amended C6: rows 10 and 12 carry key 1, at the indices 1 and 2.
\<close>

theorem queryset_to_dict_duplicate_key_witness:
  "\<exists>d. queryset_to_dict ex_heap [11, 10, 12] ''pk'' = Inr d \<and> d (PInt 1) = Some (PRef 10)"
  using queryset_to_dict_duplicate_key[of ex_heap "''pk''" "[11, 10, 12]" 1 2 "PInt 1"]
  by (simp add: has_attr_def ex_heap_def key_of_def less_Suc_eq)

text \<open>
  Claim C8: when the distinct set of scanned values is empty the call returns at line 54
  with the state it was given: no query is recorded and no object is written. That is
  so for an empty list of owners, whenever the scan yields no value, and in particular
  whenever every owner is skipped by the scan.
\<close>

theorem attach_foreignkey_noop:
  "attach_foreignkey db [] fld related database s = (Inr (), s) \<and>
   (scan (heap s) (r_column (resolve fld)) (r_accessor (resolve fld)) related objects = Inr vs \<and>
    distinct_values vs = [] \<longrightarrow>
      attach_foreignkey db objects fld related database s = (Inr (), s)) \<and>
   ((\<forall>ob \<in> set objects. \<not> needs_fetch (heap s) (r_accessor (resolve fld)) related ob) \<longrightarrow>
      attach_foreignkey db objects fld related database s = (Inr (), s))"
proof -
  have skip: "scan h col acc rel obs = Inr []"
    if "\<forall>ob \<in> set obs. \<not> needs_fetch h acc rel ob" for h col acc rel obs
    using that by (induction obs) auto
  show ?thesis
    by (auto simp: attach_foreignkey_def Let_def distinct_values_def skip)
qed

text \<open>
  An instance of C8: the posts 0, 4 and 6 all have a populated slot.
\<close>

theorem attach_foreignkey_noop_witness:
  "attach_foreignkey thread_db [0, 4, 6] (ForeignKeyDescriptor thread_fld) [] ''default'' ex_state
     = (Inr (), ex_state)"
  using attach_foreignkey_noop[of thread_db "ForeignKeyDescriptor thread_fld" "[]" "''default''"
      ex_state "[0, 4, 6]" "[]"]
  by (simp add: ex_defs)

text \<open>
  Claim C10: with no nested relations the scan takes an owner exactly when its cache
  attribute is missing or is the value \<^verbatim>\<open>False\<close> itself; every other owner
  counts as cached and contributes no key to the query. An owner whose slot holds
  \<^verbatim>\<open>None\<close> is among the cached ones. The query, when there is one, carries the
  distinct column values of the owners that are not cached.
\<close>

theorem attach_foreignkey_scan_cached:
  fixes s :: state and fld :: descriptor
  defines "col \<equiv> r_column (resolve fld)" and "acc \<equiv> r_accessor (resolve fld)"
  defines "uncached \<equiv> (\<lambda>ob. heap s ob acc = None \<or> heap s ob acc = Some (PBool False))"
  assumes "has_attr (heap s) col objects"
  shows "(\<forall>ob. needs_fetch (heap s) acc [] ob \<longleftrightarrow> uncached ob) \<and>
         scan (heap s) col acc [] objects =
           Inr (map (\<lambda>ob. the (heap s ob col)) (filter uncached objects)) \<and>
         queries (snd (attach_foreignkey db objects fld [] database s)) =
           (if filter uncached objects = [] then queries s
            else queries s @
              [fk_query (resolve fld)
                 (distinct_values (map (\<lambda>ob. the (heap s ob col)) (filter uncached objects)))
                 database []]) \<and>
         (\<forall>ob. heap s ob acc = Some PNone \<longrightarrow> \<not> needs_fetch (heap s) acc [] ob)"
proof -
  have nf: "needs_fetch (heap s) acc [] = uncached"
    by (auto simp: needs_fetch_def getattr_default_def uncached_def fun_eq_iff split: option.splits)
  have sc: "scan (heap s) col acc [] objects =
      Inr (map (\<lambda>ob. the (heap s ob col)) (filter uncached objects))"
    using scan_scanned[OF assms(4), of acc "[]"] by (simp add: scanned_def nf)
  have q: "queries (snd (attach_foreignkey db objects fld [] database s)) =
           (if filter uncached objects = [] then queries s
            else queries s @
              [fk_query (resolve fld)
                 (distinct_values (map (\<lambda>ob. the (heap s ob col)) (filter uncached objects)))
                 database []])"
    using sc unfolding col_def acc_def
    by (simp add: attach_foreignkey_def Let_def distinct_values_Nil_iff run_query_def
        attach_loop_queries split: sum.splits)
  show ?thesis
    using sc q by (simp add: nf) (simp add: uncached_def)
qed

text \<open>
  An instance of C10: post 0 holds a thread and post 6 holds \<^verbatim>\<open>None\<close>; only the
  keys of the posts 1 and 2 are fetched.
\<close>

theorem attach_foreignkey_scan_cached_witness:
  "scan ex_heap ''thread_id'' ''_thread_cache'' [] [0, 1, 6, 2] = Inr [PInt 2, PInt 3] \<and>
   ex_heap 6 ''_thread_cache'' = Some PNone \<and>
   map q_values (queries (snd (attach_foreignkey thread_db [0, 1, 6, 2]
       (ForeignKeyDescriptor thread_fld) [] ''default'' ex_state))) = [[PInt 2, PInt 3]]"
  using attach_foreignkey_scan_cached[of ex_state "ForeignKeyDescriptor thread_fld" "[0, 1, 6, 2]"
      thread_db "''default''"]
  by (simp add: ex_defs)

lemma dict_get_lookup_table_owner:
  "h ob col = Some v \<Longrightarrow>
   dict_get (lookup_table h a rows) v =
     (case find (\<lambda>u. key_of h a u = key_of h col ob) rows of None \<Rightarrow> PNone | Some u \<Rightarrow> PRef u)"
  by (simp add: dict_get_lookup_table key_of_def)

text \<open>
  Claim C7: with a non-empty list of nested relations the scan takes every owner,
  whatever its cache slot holds. One query is run: for the related model and the lookup
  of the descriptor, for the distinct column values of all owners (so the key of every
  owner, cached or not, is asked for again), on the given database and with the nested
  relations. Every owner's slot is then overwritten with the first fetched row that
  carries its key (\<^verbatim>\<open>None\<close> when no fetched row does).
\<close>

theorem attach_foreignkey_related_refetches:
  fixes s :: state and fld :: descriptor and objects :: "nat list" and related :: "string list"
    and database :: string and db :: "query \<Rightarrow> nat list"
  defines "r \<equiv> resolve fld"
  defines "q \<equiv> \<lparr>q_model = r_model r, q_lookup = r_lookup r,
                 q_values = distinct_values (map (\<lambda>ob. the (heap s ob (r_column r))) objects),
                 q_using = Some database, q_related = related\<rparr>"
  defines "res \<equiv> attach_foreignkey db objects fld related database s"
  assumes rel: "related \<noteq> []"
    and ne: "r_accessor r \<noteq> r_column r"
    and cols: "has_attr (heap s) (r_column r) objects"
    and rows: "has_attr (heap s) (r_key r) (db q)"
  shows "scan (heap s) (r_column r) (r_accessor r) related objects =
           Inr (map (\<lambda>ob. the (heap s ob (r_column r))) objects) \<and>
         fst res = Inr () \<and>
         (objects \<noteq> [] \<longrightarrow> queries (snd res) = queries s @ [q]) \<and>
         (\<forall>ob \<in> set objects. py_key (the (heap s ob (r_column r))) \<in> py_key ` set (q_values q)) \<and>
         (\<forall>ob \<in> set objects.
            heap (snd res) ob (r_accessor r) =
              Some (case find (\<lambda>u. key_of (heap s) (r_key r) u = key_of (heap s) (r_column r) ob) (db q)
                    of None \<Rightarrow> PNone | Some u \<Rightarrow> PRef u))"
proof -
  have sc: "scanned (heap s) (r_column r) (r_accessor r) related objects =
            map (\<lambda>ob. the (heap s ob (r_column r))) objects"
    using rel by (simp add: scanned_def needs_fetch_def)
  have scan: "scan (heap s) (r_column r) (r_accessor r) related objects =
           Inr (map (\<lambda>ob. the (heap s ob (r_column r))) objects)"
    using scan_scanned[OF cols, of "r_accessor r" related] sc by simp
  have qf: "fk_query r (distinct_values (map (\<lambda>ob. the (heap s ob (r_column r))) objects))
              database related = q"
    by (simp add: fk_query_def q_def)
  have asked: "py_key (the (heap s ob (r_column r))) \<in> py_key ` set (q_values q)"
    if "ob \<in> set objects" for ob
    using that by (simp add: q_def distinct_values_keys)
  show ?thesis
  proof (cases "objects = []")
    case True
    then show ?thesis
      by (simp add: res_def attach_foreignkey_def distinct_values_def)
  next
    case False
    then have some: "\<exists>ob \<in> set objects. needs_fetch (heap s) (r_accessor r) related ob"
      using rel by (cases objects) (auto simp: needs_fetch_def)
    have rows': "has_attr (heap s) (r_key (resolve fld))
        (db (fk_query (resolve fld)
              (distinct_values (scanned (heap s) (r_column (resolve fld)) (r_accessor (resolve fld))
                 related objects)) database related))"
      using rows sc qf by (simp add: r_def)
    have eq: "res = (Inr (),
      s\<lparr>heap := (\<lambda>ob. if ob \<in> set objects
                    then (heap s ob)(r_accessor r \<mapsto>
                           dict_get (lookup_table (heap s) (r_key r) (db q)) (the (heap s ob (r_column r))))
                    else heap s ob),
       queries := queries s @ [q]\<rparr>)"
      unfolding res_def
      using attach_foreignkey_fetch[where db = db and fld = fld and s = s and objects = objects
          and related = related and database = database,
          OF ne[unfolded r_def] cols[unfolded r_def] some[unfolded r_def] rows'] sc qf
      by (simp add: r_def cong: if_cong)
    have slot: "heap (snd res) ob (r_accessor r) =
              Some (case find (\<lambda>u. key_of (heap s) (r_key r) u = key_of (heap s) (r_column r) ob) (db q)
                    of None \<Rightarrow> PNone | Some u \<Rightarrow> PRef u)" if "ob \<in> set objects" for ob
    proof -
      from that cols obtain v where v: "heap s ob (r_column r) = Some v"
        by (auto simp: has_attr_def list_all_iff)
      show ?thesis
        using that v by (simp add: eq dict_get_lookup_table_owner[where h = "heap s" and ob = ob and col = "r_column r", OF v])
    qed
    show ?thesis
      using scan slot asked by (simp add: eq)
  qed
qed

text \<open>
  An instance of C7 over a table: post 0 already holds thread object 10. The call with a
  nested relation asks the thread table for the keys 1 and 2, the table answers with the
  new objects 12 and 11, and the slots of the posts 0 and 1 then hold 12 and 11.
\<close>

theorem attach_foreignkey_related_refetches_witness:
  "scan ex_heap ''thread_id'' ''_thread_cache'' [''forum''] [0, 1] = Inr [PInt 1, PInt 2] \<and>
   ex_heap 0 ''_thread_cache'' = Some (PRef 10) \<and>
   queries (snd (attach_foreignkey (fetchByKeySet ex_heap [12, 11] ''pk'') [0, 1]
                (ForeignKeyDescriptor thread_fld) [''forum''] ''default'' ex_state)) =
     [\<lparr>q_model = ''Thread'', q_lookup = ''pk'', q_values = [PInt 1, PInt 2],
       q_using = Some ''default'', q_related = [''forum'']\<rparr>] \<and>
   heap (snd (attach_foreignkey (fetchByKeySet ex_heap [12, 11] ''pk'') [0, 1]
                (ForeignKeyDescriptor thread_fld) [''forum''] ''default'' ex_state))
     0 ''_thread_cache'' = Some (PRef 12) \<and>
   heap (snd (attach_foreignkey (fetchByKeySet ex_heap [12, 11] ''pk'') [0, 1]
                (ForeignKeyDescriptor thread_fld) [''forum''] ''default'' ex_state))
     1 ''_thread_cache'' = Some (PRef 11)"
proof -
  let ?db = "fetchByKeySet ex_heap [12, 11] ''pk''"
  let ?fld = "ForeignKeyDescriptor thread_fld"
  let ?res = "attach_foreignkey ?db [0, 1] ?fld [''forum''] ''default'' ex_state"
  have vals: "distinct_values (map (\<lambda>ob. the (heap ex_state ob (r_column (resolve ?fld)))) [0, 1])
                = [PInt 1, PInt 2]"
    by (simp add: distinct_values_def ex_heap_def ex_state_def thread_fld_def)
  have rows: "?db \<lparr>q_model = r_model (resolve ?fld), q_lookup = r_lookup (resolve ?fld),
                  q_values = [PInt 1, PInt 2], q_using = Some ''default'',
                  q_related = [''forum'']\<rparr> = [12, 11]"
    by (simp add: fetchByKeySet_def ex_heap_def)
  have rel: "[''forum''] \<noteq> []" by simp
  have ne: "r_accessor (resolve ?fld) \<noteq> r_column (resolve ?fld)"
    by (simp add: cache_attr_def thread_fld_def)
  have cols: "has_attr (heap ex_state) (r_column (resolve ?fld)) [0, 1]"
    by (simp add: has_attr_def ex_heap_def ex_state_def thread_fld_def)
  have rpk: "has_attr (heap ex_state) (r_key (resolve ?fld))
      (?db \<lparr>q_model = r_model (resolve ?fld), q_lookup = r_lookup (resolve ?fld),
             q_values = distinct_values
               (map (\<lambda>ob. the (heap ex_state ob (r_column (resolve ?fld)))) [0, 1]),
             q_using = Some ''default'', q_related = [''forum'']\<rparr>)"
    unfolding vals rows by (simp add: has_attr_def ex_heap_def ex_state_def)
  note T = attach_foreignkey_related_refetches[where related = "[''forum'']" and fld = ?fld
      and s = ex_state and objects = "[0, 1]" and db = ?db and database = "''default''",
      OF rel ne cols rpk, unfolded vals rows]
  have sc: "scan ex_heap ''thread_id'' ''_thread_cache'' [''forum''] [0, 1] = Inr [PInt 1, PInt 2]"
    using T[THEN conjunct1]
    by (simp add: ex_heap_def ex_state_def thread_fld_def cache_attr_def)
  have q: "queries (snd ?res) =
     [\<lparr>q_model = ''Thread'', q_lookup = ''pk'', q_values = [PInt 1, PInt 2],
       q_using = Some ''default'', q_related = [''forum'']\<rparr>]"
    using T[THEN conjunct2, THEN conjunct2, THEN conjunct1]
    by (simp add: ex_state_def thread_fld_def)
  have S: "heap (snd ?res) 0 ''_thread_cache'' = Some (PRef 12) \<and>
           heap (snd ?res) 1 ''_thread_cache'' = Some (PRef 11)"
    using T[THEN conjunct2, THEN conjunct2, THEN conjunct2, THEN conjunct2]
    by (simp add: ex_heap_def ex_state_def key_of_def thread_fld_def cache_attr_def)
  show ?thesis
    using sc q S by (simp add: ex_heap_def)
qed

text \<open>
  Claim C2 as amended: after a call whose scan takes at least one owner, so that the
  query is run and the loop of lines 61-62 is reached, every owner of the list whose
  column value is the key of no row of the data source has \<^verbatim>\<open>None\<close> in its cache
  slot, and the call returns normally.
\<close>

theorem attach_foreignkey_unmatched_is_None:
  fixes s :: state and fld :: descriptor and objects :: "nat list" and related :: "string list"
    and database :: string and db :: "query \<Rightarrow> nat list"
  defines "r \<equiv> resolve fld"
  defines "res \<equiv> attach_foreignkey db objects fld related database s"
  assumes ne: "r_accessor r \<noteq> r_column r"
    and cols: "has_attr (heap s) (r_column r) objects"
    and rows: "\<forall>q. has_attr (heap s) (r_key r) (db q)"
    and some: "\<exists>x \<in> set objects. needs_fetch (heap s) (r_accessor r) related x"
    and ob: "ob \<in> set objects"
    and nomatch: "\<forall>q. \<forall>u \<in> set (db q). key_of (heap s) (r_key r) u \<noteq> key_of (heap s) (r_column r) ob"
  shows "fst res = Inr () \<and> heap (snd res) ob (r_accessor r) = Some PNone"
proof -
  from ob cols obtain v where v: "heap s ob (r_column r) = Some v"
    by (auto simp: has_attr_def list_all_iff)
  have none: "find (\<lambda>u. key_of (heap s) (r_key r) u = key_of (heap s) (r_column r) ob) (db q) = None" for q
    using nomatch by (auto simp: find_None_iff)
  show ?thesis
    unfolding res_def
    using attach_foreignkey_fetch[where db = db and fld = fld and s = s and objects = objects
        and related = related and database = database,
        OF ne[unfolded r_def] cols[unfolded r_def] some[unfolded r_def]
        rows[unfolded r_def, rule_format]] ob v
    by (simp add: r_def[symmetric] dict_get_lookup_table_owner[where h = "heap s" and ob = ob and col = "r_column r", OF v] none)
qed

text \<open>
  An instance of the amended C2: post 2 refers to thread 3, which the table does not
  hold.
\<close>

theorem attach_foreignkey_unmatched_is_None_witness:
  "fst (attach_foreignkey thread_db [1, 2] (ForeignKeyDescriptor thread_fld) [] ''default'' ex_state)
     = Inr () \<and>
   heap (snd (attach_foreignkey thread_db [1, 2] (ForeignKeyDescriptor thread_fld) [] ''default''
                ex_state)) 2 ''_thread_cache'' = Some PNone"
  using attach_foreignkey_unmatched_is_None[where fld = "ForeignKeyDescriptor thread_fld"
      and s = ex_state and objects = "[1, 2]" and db = thread_db and related = "[]" and ob = 2
      and database = "''default''"]
  by (simp add: ex_defs list_all_iff)

text \<open>
  Claim C2 says that after any call an owner without a matching record holds
  \<^verbatim>\<open>None\<close>. Post 4 refers to thread 3, which the table does not hold, and its slot
  holds an object cached earlier. The scan skips it, the set of values is empty, and
  the call returns at line 54 without reaching the loop: the slot is what it was.
\<close>

theorem attach_foreignkey_stale_slot_counterexample:
  "filter (\<lambda>u. key_of ex_heap ''pk'' u = key_of ex_heap ''thread_id'' 4) [10, 11] = [] \<and>
   heap ex_state 4 ''_thread_cache'' = Some (PRef 13) \<and>
   attach_foreignkey thread_db [4] (ForeignKeyDescriptor thread_fld) [] ''default'' ex_state
     = (Inr (), ex_state) \<and>
   heap (snd (attach_foreignkey thread_db [4] (ForeignKeyDescriptor thread_fld) [] ''default''
                ex_state)) 4 ''_thread_cache'' \<noteq> Some PNone"
  by (simp add: attach_foreignkey_def ex_defs)

section \<open>Claims about attach_foreignkeys\<close>

lemma distinct_from_cong: "set seen = set seen' \<Longrightarrow> distinct_from seen l = distinct_from seen' l"
proof (induction l arbitrary: seen seen')
  case Nil
  then show ?case by simp
next
  case (Cons x l)
  have "distinct_from (py_key x # seen) l = distinct_from (py_key x # seen') l"
    by (rule Cons.IH) (use Cons.prems in simp)
  moreover have "distinct_from seen l = distinct_from seen' l"
    by (rule Cons.IH) (use Cons.prems in simp)
  ultimately show ?case using Cons.prems by simp
qed

lemma distinct_from_append:
  "distinct_from seen (xs @ ys) = distinct_from seen xs @ distinct_from (map py_key xs @ seen) ys"
proof (induction xs arbitrary: seen)
  case Nil
  then show ?case by simp
next
  case (Cons x xs)
  have a: "distinct_from (map py_key xs @ py_key x # seen) ys =
           distinct_from (py_key x # map py_key xs @ seen) ys"
    by (rule distinct_from_cong) auto
  have b: "py_key x \<in> set seen \<Longrightarrow>
           distinct_from (py_key x # map py_key xs @ seen) ys = distinct_from (map py_key xs @ seen) ys"
    by (rule distinct_from_cong) auto
  show ?case using a b by (simp add: Cons.IH)
qed

lemma distinct_from_distinct_from:
  "distinct_from seen (distinct_from seen' l) = distinct_from (seen @ seen') l"
proof (induction l arbitrary: seen seen')
  case Nil
  then show ?case by simp
next
  case (Cons x l)
  have c: "distinct_from (py_key x # seen @ seen') l = distinct_from (seen @ py_key x # seen') l"
    by (rule distinct_from_cong) auto
  have d: "distinct_from ((py_key x # seen) @ py_key x # seen') l = distinct_from (seen @ py_key x # seen') l"
    by (rule distinct_from_cong) auto
  have e: "py_key x \<in> set seen \<Longrightarrow>
        distinct_from (seen @ py_key x # seen') l = distinct_from (seen @ seen') l"
    by (rule distinct_from_cong) auto
  show ?case
    using Cons.IH[of seen "py_key x # seen'"] Cons.IH[of "py_key x # seen" "py_key x # seen'"]
      Cons.IH[of seen seen'] c d e
    by auto
qed

lemma set_update_distinct:
  "set_update (distinct_values a) (distinct_values b) = distinct_values (a @ b)"
proof -
  have keys: "set (map py_key (distinct_from [] a)) = set (map py_key a)"
    using distinct_from_keys[of "[]" a] by simp
  have "set_update (distinct_values a) (distinct_values b) =
        distinct_from [] (distinct_from [] a) @
        distinct_from (map py_key (distinct_from [] a) @ []) (distinct_from [] b)"
    by (simp add: set_update_def distinct_values_def distinct_from_append)
  also have "\<dots> = distinct_from [] a @ distinct_from (map py_key (distinct_from [] a)) b"
    by (simp add: distinct_from_distinct_from)
  also have "distinct_from (map py_key (distinct_from [] a)) b = distinct_from (map py_key a @ []) b"
    by (rule distinct_from_cong) (use keys in simp)
  finally show ?thesis
    by (simp add: distinct_values_def distinct_from_append)
qed

lemma scan_groups_same:
  assumes "\<forall>(objects, fld) \<in> set gs. has_attr h (f_column fld) objects \<and> f_rel_to fld = m"
    and "gs \<noteq> []"
  shows "scan_groups h related gs None [] = Inr (Some m, distinct_values (all_scanned h related gs))"
proof -
  have step: "scan_groups h related gs (Some m) (distinct_values a) =
              Inr (Some m, distinct_values (a @ all_scanned h related gs))"
    if "\<forall>(objects, fld) \<in> set gs. has_attr h (f_column fld) objects \<and> f_rel_to fld = m" for gs a
    using that
  proof (induction gs arbitrary: a)
    case Nil
    then show ?case by (simp add: all_scanned_def)
  next
    case (Cons g gs)
    obtain objects fld where g: "g = (objects, fld)" by (cases g)
    from Cons.prems g have attr: "has_attr h (f_column fld) objects" and m: "f_rel_to fld = m"
      and rest: "\<forall>(objects, fld) \<in> set gs. has_attr h (f_column fld) objects \<and> f_rel_to fld = m"
      by auto
    show ?case
      using Cons.IH[OF rest, of "a @ scanned h (f_column fld) (cache_attr fld) related objects"]
      by (simp add: g check_model_def m scan_scanned[OF attr] set_update_distinct all_scanned_def)
  qed
  from assms obtain objects fld gs' where gs: "gs = (objects, fld) # gs'"
    by (cases gs) auto
  from assms(1) gs have attr: "has_attr h (f_column fld) objects" and m: "f_rel_to fld = m"
    and rest: "\<forall>(objects, fld) \<in> set gs'. has_attr h (f_column fld) objects \<and> f_rel_to fld = m"
    by auto
  have e: "set_update [] (distinct_values x) = distinct_values ([] @ x)" for x
    using set_update_distinct[of "[]" x] by (simp add: distinct_values_def)
  show ?thesis
    using step[OF rest, of "scanned h (f_column fld) (cache_attr fld) related objects"]
    by (simp add: gs check_model_def m scan_scanned[OF attr] e all_scanned_def)
qed

lemma scan_groups_mismatch:
  assumes "\<forall>(objects, fld) \<in> set gs. has_attr h (f_column fld) objects"
    and "find (\<lambda>g. f_rel_to (snd g) \<noteq> m) gs = Some g"
  shows "scan_groups h related gs (Some m) vals = Inl (ValueError m (f_rel_to (snd g)))"
  using assms
proof (induction gs arbitrary: vals)
  case Nil
  then show ?case by simp
next
  case (Cons x gs)
  obtain objects fld where x: "x = (objects, fld)" by (cases x)
  from Cons.prems x have attr: "has_attr h (f_column fld) objects" by auto
  show ?case
  proof (cases "f_rel_to fld \<noteq> m")
    case True
    then show ?thesis using Cons.prems by (auto simp: x check_model_def)
  next
    case False
    then have "find (\<lambda>g. f_rel_to (snd g) \<noteq> m) gs = Some g"
      using Cons.prems(2) by (simp add: x)
    moreover have "\<forall>(objects, fld) \<in> set gs. has_attr h (f_column fld) objects"
      using Cons.prems(1) by simp
    ultimately show ?thesis
      using False Cons.IH by (simp add: x check_model_def scan_scanned[OF attr])
  qed
qed

lemma find_SomeD: "find P xs = Some x \<Longrightarrow> P x \<and> x \<in> set xs"
  by (induction xs) (auto split: if_splits)

text \<open>
  Claim C3: when the fields of two groups refer to different models, the call raises
  the \<^verbatim>\<open>ValueError\<close> of line 85, which names the model of the first group and
  the model of the first group that differs from it. The state returned with the error
  is the state the call was given: no query has been recorded and no slot written.
\<close>

theorem attach_foreignkeys_model_mismatch:
  assumes cols: "\<forall>(objects, fld) \<in> set object_sets. has_attr (heap s) (f_column fld) objects"
    and diff: "\<exists>g1 \<in> set object_sets. \<exists>g2 \<in> set object_sets. f_rel_to (snd g1) \<noteq> f_rel_to (snd g2)"
  shows "\<exists>g. find (\<lambda>g. f_rel_to (snd g) \<noteq> f_rel_to (snd (hd object_sets))) object_sets = Some g \<and>
             f_rel_to (snd (hd object_sets)) \<noteq> f_rel_to (snd g) \<and>
             attach_foreignkeys db object_sets related database s =
               (Inl (ValueError (f_rel_to (snd (hd object_sets))) (f_rel_to (snd g))), s)"
proof -
  from diff obtain objects fld gs where os: "object_sets = (objects, fld) # gs"
    by (cases object_sets) auto
  let ?m = "f_rel_to fld"
  have "\<exists>g \<in> set gs. f_rel_to (snd g) \<noteq> ?m"
  proof (rule ccontr)
    assume "\<not> (\<exists>g \<in> set gs. f_rel_to (snd g) \<noteq> ?m)"
    then have all: "\<forall>g \<in> set object_sets. f_rel_to (snd g) = ?m"
      by (simp add: os)
    from diff obtain g1 g2 where "g1 \<in> set object_sets" "g2 \<in> set object_sets"
      and d: "f_rel_to (snd g1) \<noteq> f_rel_to (snd g2)" by blast
    with all have "f_rel_to (snd g1) = ?m" "f_rel_to (snd g2) = ?m" by blast+
    with d show False by simp
  qed
  then obtain g where g: "find (\<lambda>g. f_rel_to (snd g) \<noteq> ?m) gs = Some g"
    by (cases "find (\<lambda>g. f_rel_to (snd g) \<noteq> ?m) gs") (auto simp: find_None_iff)
  from find_SomeD[OF g] have "f_rel_to (snd g) \<noteq> ?m" by simp
  then have ne: "?m \<noteq> f_rel_to (snd g)" by (rule not_sym)
  have attr: "has_attr (heap s) (f_column fld) objects"
    and rest: "\<forall>(objects, fld) \<in> set gs. has_attr (heap s) (f_column fld) objects"
    using cols by (simp_all add: os)
  have "attach_foreignkeys db object_sets related database s =
          (Inl (ValueError ?m (f_rel_to (snd g))), s)"
    by (simp add: attach_foreignkeys_def os check_model_def scan_scanned[OF attr]
        scan_groups_mismatch[OF rest g])
  then show ?thesis using g ne by (simp add: os)
qed


text \<open>
  An instance of C3: two groups refer to threads, the third to users.
\<close>

theorem attach_foreignkeys_model_mismatch_witness:
  "attach_foreignkeys thread_db [([1, 2], thread_fld), ([3], topic_fld), ([5], author_fld)] []
     ''default'' ex_state = (Inl (ValueError ''Thread'' ''User''), ex_state)"
proof -
  let ?gs = "[([1, 2], thread_fld), ([3], topic_fld), ([5], author_fld)]"
  have cols: "\<forall>(objects, fld) \<in> set ?gs. has_attr (heap ex_state) (f_column fld) objects"
    by (simp add: ex_heap_def ex_state_def has_attr_def thread_fld_def topic_fld_def author_fld_def)
  have diff: "\<exists>g1 \<in> set ?gs. \<exists>g2 \<in> set ?gs. f_rel_to (snd g1) \<noteq> f_rel_to (snd g2)"
    by (rule bexI[of _ "([1, 2], thread_fld)"], rule bexI[of _ "([5], author_fld)"])
       (simp_all add: thread_fld_def author_fld_def)
  show ?thesis
    using attach_foreignkeys_model_mismatch[OF cols diff, of thread_db "[]" "''default''"]
    by (simp add: thread_fld_def topic_fld_def author_fld_def)
qed

lemma groups_wf_iff:
  "groups_wf h gs \<longleftrightarrow>
     (\<forall>g \<in> set gs. has_attr h (f_column (snd g)) (fst g)) \<and>
     (\<forall>g \<in> set gs. \<forall>g' \<in> set gs. cache_attr (snd g) \<noteq> f_column (snd g')) \<and>
     (\<forall>g \<in> set gs. \<forall>g' \<in> set gs. \<forall>ob \<in> set (fst g) \<inter> set (fst g').
         cache_attr (snd g) = cache_attr (snd g') \<longrightarrow> f_column (snd g) = f_column (snd g'))"
  unfolding groups_wf_def case_prod_beta by blast

lemma attach_groups_heap:
  assumes "groups_wf (heap s) gs"
  shows "\<exists>s'. attach_groups d gs s = (Inr (), s') \<and> queries s' = queries s \<and>
     (\<forall>g \<in> set gs. \<forall>ob \<in> set (fst g).
        heap s' ob (cache_attr (snd g)) = Some (dict_get d (the (heap s ob (f_column (snd g)))))) \<and>
     (\<forall>ob a. (\<forall>g \<in> set gs. ob \<in> set (fst g) \<longrightarrow> cache_attr (snd g) \<noteq> a) \<longrightarrow>
        heap s' ob a = heap s ob a)"
  using assms
proof (induction gs arbitrary: s)
  case Nil
  then show ?case by simp
next
  case (Cons g gs)
  obtain objs f where g: "g = (objs, f)" by (cases g)
  let ?gs = "g # gs"
  from Cons.prems have
    attr: "\<forall>x \<in> set ?gs. has_attr (heap s) (f_column (snd x)) (fst x)"
    and nocol: "\<forall>x \<in> set ?gs. \<forall>y \<in> set ?gs. cache_attr (snd x) \<noteq> f_column (snd y)"
    and cons: "\<forall>x \<in> set ?gs. \<forall>y \<in> set ?gs. \<forall>ob \<in> set (fst x) \<inter> set (fst y).
         cache_attr (snd x) = cache_attr (snd y) \<longrightarrow> f_column (snd x) = f_column (snd y)"
    unfolding groups_wf_iff by blast+
  have a1: "has_attr (heap s) (f_column f) objs"
    using attr by (simp add: g)
  have a2: "cache_attr f \<noteq> f_column f"
    using nocol by (simp add: g)
  define v where "v = (\<lambda>ob. dict_get d (the (heap s ob (f_column f))))"
  define s1 where "s1 = s\<lparr>heap := (\<lambda>ob. if ob \<in> set objs
                              then (heap s ob)(cache_attr f \<mapsto> v ob) else heap s ob)\<rparr>"
  have loop: "attach_loop d (cache_attr f) (f_column f) objs s = (Inr (), s1)"
    unfolding s1_def v_def by (rule attach_loop_heap[OF a2 a1])
  have keep: "heap s1 ob a = heap s ob a" if "ob \<in> set objs \<longrightarrow> cache_attr f \<noteq> a" for ob a
    using that by (auto simp: s1_def)
  have head: "heap s1 ob (cache_attr f) = Some (v ob)" if "ob \<in> set objs" for ob
    using that by (simp add: s1_def)
  have q1: "queries s1 = queries s" by (simp add: s1_def)
  have col: "heap s1 ob (f_column (snd x)) = heap s ob (f_column (snd x))" if "x \<in> set ?gs" for ob x
    using nocol that by (intro keep) (auto simp: g)
  have wf1: "groups_wf (heap s1) gs"
    unfolding groups_wf_iff
  proof (intro conjI)
    show "\<forall>x \<in> set gs. has_attr (heap s1) (f_column (snd x)) (fst x)"
      using attr col by (simp add: has_attr_def list_all_iff)
    show "\<forall>x \<in> set gs. \<forall>y \<in> set gs. cache_attr (snd x) \<noteq> f_column (snd y)"
      using nocol by simp
    show "\<forall>x \<in> set gs. \<forall>y \<in> set gs. \<forall>ob \<in> set (fst x) \<inter> set (fst y).
         cache_attr (snd x) = cache_attr (snd y) \<longrightarrow> f_column (snd x) = f_column (snd y)"
      using cons by simp
  qed
  from Cons.IH[OF wf1] obtain s' where
    run: "attach_groups d gs s1 = (Inr (), s')"
    and q: "queries s' = queries s1"
    and wr: "\<And>x ob. x \<in> set gs \<Longrightarrow> ob \<in> set (fst x) \<Longrightarrow>
        heap s' ob (cache_attr (snd x)) = Some (dict_get d (the (heap s1 ob (f_column (snd x)))))"
    and fr: "\<And>ob a. (\<forall>x \<in> set gs. ob \<in> set (fst x) \<longrightarrow> cache_attr (snd x) \<noteq> a) \<Longrightarrow>
        heap s' ob a = heap s1 ob a"
    by blast
  have total: "attach_groups d ?gs s = (Inr (), s')"
    by (simp add: g loop run)
  have written: "heap s' ob (cache_attr (snd x)) = Some (dict_get d (the (heap s ob (f_column (snd x)))))"
    if x: "x \<in> set ?gs" and ob: "ob \<in> set (fst x)" for x ob
  proof (cases "\<exists>y \<in> set gs. ob \<in> set (fst y) \<and> cache_attr (snd y) = cache_attr (snd x)")
    case True
    then obtain y where y: "y \<in> set gs" "ob \<in> set (fst y)" "cache_attr (snd y) = cache_attr (snd x)"
      by blast
    have "f_column (snd x) = f_column (snd y)"
      using cons x y ob by (metis IntI list.set_intros(2))
    moreover have "heap s' ob (cache_attr (snd y)) =
        Some (dict_get d (the (heap s1 ob (f_column (snd y)))))"
      by (rule wr[OF y(1) y(2)])
    moreover have "heap s1 ob (f_column (snd y)) = heap s ob (f_column (snd y))"
      by (rule col) (use y in simp)
    ultimately show ?thesis using y(3) by simp
  next
    case False
    then have notin: "x \<notin> set gs" using ob by blast
    with x have xg: "x = g" by simp
    have "heap s' ob (cache_attr (snd x)) = heap s1 ob (cache_attr (snd x))"
      by (rule fr) (use False in blast)
    also have "\<dots> = Some (v ob)"
      using head ob by (simp add: xg g)
    finally show ?thesis by (simp add: v_def xg g)
  qed
  have frame: "heap s' ob a = heap s ob a"
    if "\<forall>x \<in> set ?gs. ob \<in> set (fst x) \<longrightarrow> cache_attr (snd x) \<noteq> a" for ob a
  proof -
    have "heap s' ob a = heap s1 ob a"
      by (rule fr) (use that in simp)
    also have "\<dots> = heap s ob a"
      by (rule keep) (use that in \<open>simp add: g\<close>)
    finally show ?thesis .
  qed
  show ?case
    using total q q1 written frame by (intro exI[of _ s']) simp
qed

lemma all_scanned_keys:
  "py_key ` set (all_scanned h related gs) =
     (\<Union>(objects, fld) \<in> set gs.
        py_key ` set (scanned h (f_column fld) (cache_attr fld) related objects))"
  by (auto simp: all_scanned_def)

text \<open>
  Claim C4 as amended: when all groups refer to the same model, the scanned values of
  all groups are united into one list of distinct values. When that list is not empty,
  exactly one query is recorded, for the primary keys in that list, and the one lookup
  table built from its rows fills the slot of every owner of every group. When the list
  is empty the call returns the state it was given, without a query.
\<close>

theorem attach_foreignkeys_single_fetch:
  fixes s :: state and object_sets :: "(nat list \<times> field) list" and related :: "string list"
    and database :: string and db :: "query \<Rightarrow> nat list" and m :: string
  defines "vals \<equiv> distinct_values (all_scanned (heap s) related object_sets)"
  defines "q \<equiv> pk_query m vals database related"
  defines "res \<equiv> attach_foreignkeys db object_sets related database s"
  assumes wf: "groups_wf (heap s) object_sets"
    and same: "\<forall>(objects, fld) \<in> set object_sets. f_rel_to fld = m"
    and rows: "has_attr (heap s) ''pk'' (db q)"
  shows "fst res = Inr () \<and>
    py_key ` set vals =
      (\<Union>(objects, fld) \<in> set object_sets.
         py_key ` set (scanned (heap s) (f_column fld) (cache_attr fld) related objects)) \<and>
    (vals = [] \<longrightarrow> snd res = s) \<and>
    (vals \<noteq> [] \<longrightarrow>
       queries (snd res) = queries s @ [q] \<and>
       (\<forall>(objects, fld) \<in> set object_sets. \<forall>ob \<in> set objects.
          heap (snd res) ob (cache_attr fld) =
            Some (case find (\<lambda>u. key_of (heap s) ''pk'' u = key_of (heap s) (f_column fld) ob) (db q)
                  of None \<Rightarrow> PNone | Some u \<Rightarrow> PRef u)))"
proof -
  have keys: "py_key ` set vals =
      (\<Union>(objects, fld) \<in> set object_sets.
         py_key ` set (scanned (heap s) (f_column fld) (cache_attr fld) related objects))"
    by (simp add: vals_def distinct_values_keys all_scanned_keys)
  have attr: "\<forall>g \<in> set object_sets. has_attr (heap s) (f_column (snd g)) (fst g)"
    using wf unfolding groups_wf_iff by blast
  show ?thesis
  proof (cases "object_sets = []")
    case True
    then show ?thesis
      using keys by (simp add: res_def attach_foreignkeys_def vals_def all_scanned_def distinct_values_def)
  next
    case False
    have both: "\<forall>(objects, fld) \<in> set object_sets.
        has_attr (heap s) (f_column fld) objects \<and> f_rel_to fld = m"
      using attr same by (auto simp: case_prod_beta)
    have sg: "scan_groups (heap s) related object_sets None [] = Inr (Some m, vals)"
      unfolding vals_def by (rule scan_groups_same[OF both False])
    show ?thesis
    proof (cases "vals = []")
      case True
      then show ?thesis using keys by (simp add: res_def attach_foreignkeys_def sg)
    next
      case ne: False
      let ?s1 = "s\<lparr>queries := queries s @ [q]\<rparr>"
      let ?d = "lookup_table (heap s) ''pk'' (db q)"
      have wf1: "groups_wf (heap ?s1) object_sets" using wf by simp
      from attach_groups_heap[OF wf1, of ?d] obtain s' where
        run: "attach_groups ?d object_sets ?s1 = (Inr (), s')"
        and qs: "queries s' = queries ?s1"
        and wr: "\<And>g ob. g \<in> set object_sets \<Longrightarrow> ob \<in> set (fst g) \<Longrightarrow>
          heap s' ob (cache_attr (snd g)) =
            Some (dict_get ?d (the (heap ?s1 ob (f_column (snd g)))))"
        by blast
      have res: "res = (Inr (), s')"
        using ne rows run
        by (simp add: res_def attach_foreignkeys_def sg run_query_def q_def[symmetric]
            queryset_to_dict_lookup_table)
      have slot: "heap s' ob (cache_attr (snd g)) =
            Some (case find (\<lambda>u. key_of (heap s) ''pk'' u = key_of (heap s) (f_column (snd g)) ob) (db q)
                  of None \<Rightarrow> PNone | Some u \<Rightarrow> PRef u)"
        if g: "g \<in> set object_sets" and ob: "ob \<in> set (fst g)" for g ob
      proof -
        from attr g ob obtain v where v: "heap s ob (f_column (snd g)) = Some v"
          by (auto simp: has_attr_def list_all_iff)
        show ?thesis
          using wr[OF g ob] v
          by (simp add: dict_get_lookup_table_owner[where h = "heap s" and ob = ob
                and col = "f_column (snd g)", OF v])
      qed
      show ?thesis
        using ne keys qs slot by (auto simp: res)
    qed
  qed
qed

text \<open>
  An instance of the amended C4: two posts and a bookmark, in two groups with different
  fields, are served by one query for the keys 2 and 3.
\<close>

theorem attach_foreignkeys_single_fetch_witness:
  "queries (snd (attach_foreignkeys thread_db [([1, 2], thread_fld), ([3], topic_fld)] [] ''default''
                   ex_state)) = [pk_query ''Thread'' [PInt 2, PInt 3] ''default'' []] \<and>
   heap (snd (attach_foreignkeys thread_db [([1, 2], thread_fld), ([3], topic_fld)] [] ''default''
                ex_state)) 1 ''_thread_cache'' = Some (PRef 11) \<and>
   heap (snd (attach_foreignkeys thread_db [([1, 2], thread_fld), ([3], topic_fld)] [] ''default''
                ex_state)) 2 ''_thread_cache'' = Some PNone \<and>
   heap (snd (attach_foreignkeys thread_db [([1, 2], thread_fld), ([3], topic_fld)] [] ''default''
                ex_state)) 3 ''_topic_cache'' = Some (PRef 11)"
proof -
  let ?gs = "[([1, 2], thread_fld), ([3], topic_fld)] :: (nat list \<times> field) list"
  let ?res = "attach_foreignkeys thread_db ?gs [] ''default'' ex_state"
  have wf: "groups_wf (heap ex_state) ?gs"
    by (simp add: groups_wf_def ex_heap_def ex_state_def has_attr_def thread_fld_def topic_fld_def
        cache_attr_def)
  have same: "\<forall>(objects, fld) \<in> set ?gs. f_rel_to fld = ''Thread''"
    by (simp add: thread_fld_def topic_fld_def)
  have vals: "distinct_values (all_scanned (heap ex_state) [] ?gs) = [PInt 2, PInt 3]"
    by (simp add: ex_defs)
  have db: "thread_db (pk_query ''Thread'' [PInt 2, PInt 3] ''default'' []) = [11]"
    by (simp add: ex_defs)
  have rows: "has_attr (heap ex_state) ''pk''
      (thread_db (pk_query ''Thread'' (distinct_values (all_scanned (heap ex_state) [] ?gs))
         ''default'' []))"
    unfolding vals db by (simp add: has_attr_def ex_heap_def ex_state_def)
  note T = attach_foreignkeys_single_fetch[where s = ex_state and object_sets = ?gs
        and m = "''Thread''" and db = thread_db and database = "''default''" and related = "[]",
        OF wf same rows, unfolded vals db, THEN conjunct2, THEN conjunct2, THEN conjunct2]
  have ne: "[PInt 2, PInt 3] \<noteq> []" by simp
  note D = T[rule_format, OF ne]
  have q: "queries (snd ?res) = [pk_query ''Thread'' [PInt 2, PInt 3] ''default'' []]"
    using D[THEN conjunct1] by (simp add: ex_state_def)
  have S: "heap (snd ?res) 1 (cache_attr thread_fld) = Some (PRef 11) \<and>
           heap (snd ?res) 2 (cache_attr thread_fld) = Some PNone \<and>
           heap (snd ?res) 3 (cache_attr topic_fld) = Some (PRef 11)"
    using D[THEN conjunct2]
    by (simp add: ex_heap_def ex_state_def key_of_def thread_fld_def topic_fld_def)
  show ?thesis
    using q S by (simp add: cache_attr_def thread_fld_def topic_fld_def)
qed

text \<open>
  Claim C4 says that every call whose groups refer to the same model issues exactly one
  fetch. Both groups below refer to threads, and every owner in them has a populated
  slot: the united set of values is empty, the call returns at line 91, and no query is
  recorded.
\<close>

theorem attach_foreignkeys_no_fetch_counterexample:
  "f_rel_to thread_fld = f_rel_to thread_fld \<and>
   attach_foreignkeys thread_db [([0, 4], thread_fld), ([6], thread_fld)] [] ''default'' ex_state
     = (Inr (), ex_state) \<and>
   length (queries (snd (attach_foreignkeys thread_db [([0, 4], thread_fld), ([6], thread_fld)] []
                           ''default'' ex_state))) \<noteq> 1"
  by (simp add: attach_foreignkeys_def ex_defs)

section \<open>The claim about attach_profile\<close>

lemma pks_map:
  "has_attr h ''pk'' users \<Longrightarrow> pks h users = Inr (map (\<lambda>u. the (h u ''pk'')) users)"
  unfolding has_attr_def by (induction users) (auto simp: getattr_def)

lemma profile_loop_fails:
  assumes "has_attr (heap s) ''pk'' (pre @ [u])"
    and "\<forall>x \<in> set pre. \<exists>p. dict_get d (the (heap s x ''pk'')) = PRef p"
    and "dict_get d (the (heap s u ''pk'')) = PNone"
  shows "\<exists>s'. profile_loop d (pre @ u # post) s = (Inl AttributeError, s') \<and>
      queries s' = queries s \<and>
      (\<forall>x \<in> set pre. heap s' x ''_profile_cache'' = Some (dict_get d (the (heap s x ''pk'')))) \<and>
      heap s' u ''_profile_cache'' = Some PNone \<and>
      (\<forall>y. heap s' y ''pk'' = heap s y ''pk'') \<and>
      (\<forall>y. y \<notin> set pre \<and> y \<noteq> u \<longrightarrow> heap s' y ''_profile_cache'' = heap s y ''_profile_cache'')"
  using assms
proof (induction pre arbitrary: s)
  case Nil
  then obtain v where v: "heap s u ''pk'' = Some v" by (auto simp: has_attr_def)
  with Nil.prems(3) have "dict_get d v = PNone" by simp
  then show ?case
    using v by (simp add: getattr_def setattr_def Let_def)
next
  case (Cons x pre)
  from Cons.prems(1) obtain v where v: "heap s x ''pk'' = Some v" by (auto simp: has_attr_def)
  from Cons.prems(2) v obtain p where p: "dict_get d v = PRef p" by auto
  define s2 where "s2 = setattr p ''user'' (PRef x) (setattr x ''_profile_cache'' (PRef p) s)"
  have pk2: "heap s2 y ''pk'' = heap s y ''pk''" for y
    by (simp add: s2_def setattr_def)
  have pc2: "heap s2 y ''_profile_cache'' = (if y = x then Some (PRef p) else heap s y ''_profile_cache'')"
    for y by (simp add: s2_def setattr_def)
  have q2: "queries s2 = queries s" by (simp add: s2_def setattr_def)
  have step: "profile_loop d ((x # pre) @ u # post) s = profile_loop d (pre @ u # post) s2"
    using v p by (simp add: getattr_def Let_def s2_def setattr_def)
  have h1: "has_attr (heap s2) ''pk'' (pre @ [u])"
    using Cons.prems(1) by (simp add: has_attr_def pk2)
  have h2: "\<forall>x \<in> set pre. \<exists>p. dict_get d (the (heap s2 x ''pk'')) = PRef p"
    using Cons.prems(2) by (simp add: pk2)
  have h3: "dict_get d (the (heap s2 u ''pk'')) = PNone"
    using Cons.prems(3) by (simp add: pk2)
  from Cons.IH[OF h1 h2 h3] obtain s' where IH:
    "profile_loop d (pre @ u # post) s2 = (Inl AttributeError, s') \<and>
      queries s' = queries s2 \<and>
      (\<forall>x \<in> set pre. heap s' x ''_profile_cache'' = Some (dict_get d (the (heap s2 x ''pk'')))) \<and>
      heap s' u ''_profile_cache'' = Some PNone \<and>
      (\<forall>y. heap s' y ''pk'' = heap s2 y ''pk'') \<and>
      (\<forall>y. y \<notin> set pre \<and> y \<noteq> u \<longrightarrow> heap s' y ''_profile_cache'' = heap s2 y ''_profile_cache'')"
    ..
  note run = IH[THEN conjunct1]
  note q = IH[THEN conjunct2, THEN conjunct1]
  note wr = IH[THEN conjunct2, THEN conjunct2, THEN conjunct1, rule_format]
  note bad = IH[THEN conjunct2, THEN conjunct2, THEN conjunct2, THEN conjunct1]
  note pk = IH[THEN conjunct2, THEN conjunct2, THEN conjunct2, THEN conjunct2, THEN conjunct1, rule_format]
  have fr: "heap s' y ''_profile_cache'' = heap s2 y ''_profile_cache''"
    if "y \<notin> set pre" "y \<noteq> u" for y
    using IH[THEN conjunct2, THEN conjunct2, THEN conjunct2, THEN conjunct2, THEN conjunct2,
        rule_format, of y] that by simp
  have xu: "x \<noteq> u"
    using Cons.prems(3) v p by auto
  have head: "heap s' x ''_profile_cache'' = Some (dict_get d (the (heap s x ''pk'')))"
  proof (cases "x \<in> set pre")
    case True
    then show ?thesis using wr[of x] by (simp add: pk2)
  next
    case False
    then show ?thesis using fr[of x] xu v p by (simp add: pc2)
  qed
  have all: "heap s' y ''_profile_cache'' = Some (dict_get d (the (heap s y ''pk'')))"
    if "y \<in> set (x # pre)" for y
    using that head wr[of y] by (auto simp: pk2)
  have frame: "heap s' y ''_profile_cache'' = heap s y ''_profile_cache''"
    if "y \<notin> set (x # pre)" "y \<noteq> u" for y
    using that fr[of y] by (simp add: pc2)
  show ?case
  proof (intro exI[of _ s'] conjI ballI allI impI)
    show "profile_loop d ((x # pre) @ u # post) s = (Inl AttributeError, s')"
      using step run by simp
    show "queries s' = queries s" using q q2 by simp
    show "heap s' y ''_profile_cache'' = Some (dict_get d (the (heap s y ''pk'')))"
      if "y \<in> set (x # pre)" for y using all[OF that] .
    show "heap s' u ''_profile_cache'' = Some PNone" by (rule bad)
    show "heap s' y ''pk'' = heap s y ''pk''" for y using pk[of y] pk2[of y] by simp
    show "heap s' y ''_profile_cache'' = heap s y ''_profile_cache''"
      if "y \<notin> set (x # pre) \<and> y \<noteq> u" for y using frame[of y] that by simp
  qed
qed

lemma takeWhile_dropWhile_missing:
  assumes "\<exists>u \<in> set users. \<not> P u"
  shows "\<exists>u post. users = takeWhile P users @ u # post \<and> \<not> P u \<and> find (\<lambda>u. \<not> P u) users = Some u"
  using assms
proof (induction users)
  case Nil
  then show ?case by simp
next
  case (Cons a users)
  show ?case
  proof (cases "P a")
    case True
    with Cons.prems have "\<exists>u \<in> set users. \<not> P u" by auto
    from Cons.IH[OF this] obtain u post where
      "users = takeWhile P users @ u # post" "\<not> P u" "find (\<lambda>u. \<not> P u) users = Some u"
      by blast
    then show ?thesis using True by (intro exI[of _ u] exI[of _ post]) simp
  next
    case False
    then show ?thesis by (intro exI[of _ a] exI[of _ users]) simp
  qed
qed

text \<open>
  Claim C9: when the profile model is configured and some user of the list has no
  profile row, \<^verbatim>\<open>attach_profile\<close> fails with an attribute error: the loop of lines
  133-135 stores \<^verbatim>\<open>None\<close> in the slot of the first such user and then tries to
  set \<^verbatim>\<open>user\<close> on it. The users before it in the list keep the profiles that the
  loop attached to them; the state at the failure is mutated in part.
\<close>

theorem attach_profile_missing_profile:
  fixes s :: state and users :: "nat list" and db :: "query \<Rightarrow> nat list" and model :: string
    and auth_profile_module :: "string option"
    and get_model :: "string \<Rightarrow> string \<Rightarrow> pyerror + string option"
  defines "q \<equiv> profile_query model (distinct_values (map (\<lambda>u. the (heap s u ''pk'')) users))"
  defines "res \<equiv> attach_profile db auth_profile_module get_model users s"
  defines "found \<equiv> (\<lambda>u. profile_of (heap s) (db q) u \<noteq> None)"
  assumes cfg: "profile_model auth_profile_module get_model = Inr model"
    and upk: "has_attr (heap s) ''pk'' users"
    and rpk: "has_attr (heap s) ''pk'' (db q)"
    and missing: "\<exists>u \<in> set users. profile_of (heap s) (db q) u = None"
  shows "fst res = Inl AttributeError \<and>
     queries (snd res) = queries s @ [q] \<and>
     (\<forall>x \<in> set (takeWhile found users).
        heap (snd res) x ''_profile_cache'' = map_option PRef (profile_of (heap s) (db q) x)) \<and>
     (\<forall>u. find (\<lambda>u. \<not> found u) users = Some u \<longrightarrow>
        heap (snd res) u ''_profile_cache'' = Some PNone)"
proof -
  let ?d = "lookup_table (heap s) ''pk'' (db q)"
  let ?s1 = "s\<lparr>queries := queries s @ [q]\<rparr>"
  have dg: "dict_get ?d (the (heap s x ''pk'')) =
      (case profile_of (heap s) (db q) x of None \<Rightarrow> PNone | Some r \<Rightarrow> PRef r)"
    if "x \<in> set users" for x
  proof -
    from upk that obtain v where v: "heap s x ''pk'' = Some v"
      by (auto simp: has_attr_def list_all_iff)
    show ?thesis
      using v
      by (simp add: profile_of_def dict_get_lookup_table_owner[where h = "heap s" and ob = x
            and col = "''pk''", OF v])
  qed
  from missing have "\<exists>u \<in> set users. \<not> found u" by (simp add: found_def)
  from takeWhile_dropWhile_missing[OF this] obtain u post where
    split: "users = takeWhile found users @ u # post"
    and nf: "\<not> found u" and first: "find (\<lambda>u. \<not> found u) users = Some u"
    by blast
  let ?pre = "takeWhile found users"
  have uin: "u \<in> set users" by (subst split) simp
  have prein: "x \<in> set users" if "x \<in> set ?pre" for x
    using that set_takeWhileD by fastforce
  have prefound: "found x" if "x \<in> set ?pre" for x
    using that set_takeWhileD by fastforce
  have a1: "has_attr (heap ?s1) ''pk'' (?pre @ [u])"
    using upk uin prein by (auto simp: has_attr_def list_all_iff)
  have a2: "\<forall>x \<in> set ?pre. \<exists>p. dict_get ?d (the (heap ?s1 x ''pk'')) = PRef p"
  proof
    fix x assume x: "x \<in> set ?pre"
    from prefound[OF x] obtain r where "profile_of (heap s) (db q) x = Some r"
      by (auto simp: found_def)
    then show "\<exists>p. dict_get ?d (the (heap ?s1 x ''pk'')) = PRef p"
      using dg[OF prein[OF x]] by simp
  qed
  have a3: "dict_get ?d (the (heap ?s1 u ''pk'')) = PNone"
    using dg[OF uin] nf by (simp add: found_def)
  from profile_loop_fails[OF a1 a2 a3, of post] obtain s' where L:
    "profile_loop ?d (?pre @ u # post) ?s1 = (Inl AttributeError, s') \<and>
      queries s' = queries ?s1 \<and>
      (\<forall>x \<in> set ?pre. heap s' x ''_profile_cache'' = Some (dict_get ?d (the (heap ?s1 x ''pk'')))) \<and>
      heap s' u ''_profile_cache'' = Some PNone \<and>
      (\<forall>y. heap s' y ''pk'' = heap ?s1 y ''pk'') \<and>
      (\<forall>y. y \<notin> set ?pre \<and> y \<noteq> u \<longrightarrow> heap s' y ''_profile_cache'' = heap ?s1 y ''_profile_cache'')"
    ..
  have loop: "profile_loop ?d users ?s1 = (Inl AttributeError, s')"
    using L[THEN conjunct1] split by simp
  have res: "res = (Inl AttributeError, s')"
    using rpk loop
    by (simp add: res_def attach_profile_def cfg pks_map[OF upk] run_query_def q_def[symmetric]
        queryset_to_dict_lookup_table)
  have slot: "heap s' x ''_profile_cache'' = map_option PRef (profile_of (heap s) (db q) x)"
    if x: "x \<in> set ?pre" for x
  proof -
    from prefound[OF x] obtain r where r: "profile_of (heap s) (db q) x = Some r"
      by (auto simp: found_def)
    have "heap s' x ''_profile_cache'' = Some (dict_get ?d (the (heap ?s1 x ''pk'')))"
      using L[THEN conjunct2, THEN conjunct2, THEN conjunct1] x by blast
    then show ?thesis using dg[OF prein[OF x]] r by simp
  qed
  show ?thesis
  proof (intro conjI ballI allI impI)
    show "fst res = Inl AttributeError" by (simp add: res)
    show "queries (snd res) = queries s @ [q]"
      using L[THEN conjunct2, THEN conjunct1] by (simp add: res)
    show "heap (snd res) x ''_profile_cache'' = map_option PRef (profile_of (heap s) (db q) x)"
      if "x \<in> set ?pre" for x using slot[OF that] by (simp add: res)
    show "heap (snd res) w ''_profile_cache'' = Some PNone"
      if "find (\<lambda>u. \<not> found u) users = Some w" for w
      using that first L[THEN conjunct2, THEN conjunct2, THEN conjunct2, THEN conjunct1]
      by (simp add: res)
  qed
qed

text \<open>
  An instance of C9: user 20 has the profile row 30, user 21 has none.
\<close>

theorem attach_profile_missing_profile_witness:
  "fst (attach_profile profile_db (Some ''accounts.Profile'') ex_get_model [20, 21] ex_state)
     = Inl AttributeError \<and>
   heap (snd (attach_profile profile_db (Some ''accounts.Profile'') ex_get_model [20, 21] ex_state))
     20 ''_profile_cache'' = Some (PRef 30) \<and>
   heap (snd (attach_profile profile_db (Some ''accounts.Profile'') ex_get_model [20, 21] ex_state))
     21 ''_profile_cache'' = Some PNone"
proof -
  let ?res = "attach_profile profile_db (Some ''accounts.Profile'') ex_get_model [20, 21] ex_state"
  have cfg: "profile_model (Some ''accounts.Profile'') ex_get_model = Inr ''Profile''"
    by (simp add: profile_model_def ex_get_model_def)
  have upk: "has_attr (heap ex_state) ''pk'' [20, 21]"
    by (simp add: has_attr_def ex_heap_def ex_state_def)
  have vals: "distinct_values (map (\<lambda>u. the (heap ex_state u ''pk'')) [20, 21]) = [PInt 1, PInt 2]"
    by (simp add: distinct_values_def ex_heap_def ex_state_def)
  have db: "profile_db (profile_query ''Profile'' [PInt 1, PInt 2]) = [30]"
    by (simp add: profile_db_def profile_query_def fetchByKeySet_def ex_heap_def)
  have rpk: "has_attr (heap ex_state) ''pk''
      (profile_db (profile_query ''Profile''
         (distinct_values (map (\<lambda>u. the (heap ex_state u ''pk'')) [20, 21]))))"
    unfolding vals db by (simp add: has_attr_def ex_heap_def ex_state_def)
  have p20: "profile_of (heap ex_state) [30] 20 = Some 30"
    by (simp add: profile_of_def key_of_def ex_heap_def ex_state_def)
  have p21: "profile_of (heap ex_state) [30] 21 = None"
    by (simp add: profile_of_def key_of_def ex_heap_def ex_state_def)
  have missing: "\<exists>u \<in> set [20, 21]. profile_of (heap ex_state)
      (profile_db (profile_query ''Profile''
         (distinct_values (map (\<lambda>u. the (heap ex_state u ''pk'')) [20, 21])))) u = None"
    unfolding vals db using p21 by simp
  note T = attach_profile_missing_profile[where s = ex_state and users = "[20, 21]"
      and db = profile_db and model = "''Profile''" and auth_profile_module = "Some ''accounts.Profile''"
      and get_model = ex_get_model, OF cfg upk rpk missing, unfolded vals db]
  have r1: "fst ?res = Inl AttributeError"
    by (rule T[THEN conjunct1])
  have r2: "heap (snd ?res) 20 ''_profile_cache'' = Some (PRef 30)"
    using T[THEN conjunct2, THEN conjunct2, THEN conjunct1] by (simp add: p20 p21)
  have r3: "heap (snd ?res) 21 ''_profile_cache'' = Some PNone"
    using T[THEN conjunct2, THEN conjunct2, THEN conjunct2] by (simp add: p20 p21)
  show ?thesis using r1 r2 r3 by simp
qed

end
